theory Spec2Isabelle
  imports
    Main
    "HOL-Library.Word"
    "HOL-Library.AList"
    "HOL-Library.Char_ord"
    "HOL-Library.List_Lexorder"
    "HOL-Library.Product_Lexorder"
begin

unbundle bit_operations_syntax

section \<open>Values shared by the loader and the engine\<close>

text \<open>
  The exceptions the two modules raise or let through. Python's \<open>FileNotFoundError\<close> is
  kept apart from the other \<open>OSError\<close>s because \<open>load_state\<close> and \<open>get_diff\<close> catch exactly
  that class.
\<close>

datatype py_error = ValueError | FileNotFoundError | OSError | JSONDecodeError | KeyError

text \<open>A call either returns a value or raises; the state it leaves behind is given beside it.\<close>

datatype 'a outcome = Returned 'a | Raised py_error

text \<open>
  Three functions of Python's standard library are used by the code and are not part of the
  repository: \<open>ipaddress.ip_network(v, strict=True)\<close> followed by \<open>str\<close> (here \<open>None\<close> when
  it raises \<open>ValueError\<close>, otherwise the normalised text of the network), \<open>int(s)\<close> on a
  string (\<open>None\<close> when it raises \<open>ValueError\<close>) and \<open>hashlib.sha256(b).digest()\<close>
  (256 bits). The operations below take them as the parameter \<open>L\<close>; every general theorem
  holds for each choice of \<open>L\<close>.
\<close>

record pylib =
  ip_network :: "string \<Rightarrow> string option"
  py_int :: "string \<Rightarrow> int option"
  sha256 :: "string \<Rightarrow> 256 word"

subsection \<open>Rendering integers: \<open>str(n)\<close>, \<open>{n}\<close> in an f-string, a JSON number\<close>

definition digit_char :: "nat \<Rightarrow> char" where
  "digit_char n = char_of (48 + n)"

fun str_nat :: "nat \<Rightarrow> string" where
  "str_nat n = (if n < 10 then [digit_char n] else str_nat (n div 10) @ [digit_char (n mod 10)])"

declare str_nat.simps [simp del]

definition str_int :: "int \<Rightarrow> string" where
  "str_int i = (if i < 0 then CHR ''-'' # str_nat (nat (- i)) else str_nat (nat i))"

definition startswith :: "string \<Rightarrow> string \<Rightarrow> bool" where
  "startswith v p = (take (length p) v = p)"

section \<open>vrp\_loader.py\<close>

subsection \<open>\<open>VRPMetadata\<close> and \<open>VRPEntry\<close> with their field validators\<close>

definition validate_timestamp :: "int \<Rightarrow> py_error + int" where
  "validate_timestamp v = (if v \<le> 0 then Inl ValueError else Inr v)"

record VRPEntry =
  asn :: string
  prefix :: string
  maxLength :: int
  ta :: string

text \<open>
  \<open>validate_asn\<close>: the range error raised inside the \<open>try\<close> is itself a \<open>ValueError\<close>, so it
  is caught and raised again as the format error; both are \<open>ValueError\<close>.
\<close>

definition validate_asn :: "pylib \<Rightarrow> string \<Rightarrow> py_error + string" where
  "validate_asn L v =
     (if \<not> startswith v ''AS'' then Inl ValueError
      else case py_int L (drop 2 v) of
             None \<Rightarrow> Inl ValueError
           | Some asn_num \<Rightarrow>
               if asn_num < 0 \<or> asn_num > 4294967295 then Inl ValueError else Inr v)"

definition validate_prefix :: "pylib \<Rightarrow> string \<Rightarrow> py_error + string" where
  "validate_prefix L v = (case ip_network L v of None \<Rightarrow> Inl ValueError | Some _ \<Rightarrow> Inr v)"

definition validate_max_length :: "int \<Rightarrow> py_error + int" where
  "validate_max_length v = (if v < 0 \<or> v > 128 then Inl ValueError else Inr v)"

text \<open>
  Constructing a \<open>VRPEntry\<close> from the four fields of an upstream record runs the three
  validators; pydantic raises \<open>ValidationError\<close> (a \<open>ValueError\<close>) when one of them raises.
  The fields are taken with the types the class declares.
\<close>

definition new_VRPEntry :: "pylib \<Rightarrow> VRPEntry \<Rightarrow> py_error + VRPEntry" where
  "new_VRPEntry L r =
     (case (validate_asn L (asn r), validate_prefix L (prefix r), validate_max_length (maxLength r)) of
        (Inr a, Inr p, Inr m) \<Rightarrow> Inr \<lparr>asn = a, prefix = p, maxLength = m, ta = ta r\<rparr>
      | _ \<Rightarrow> Inl ValueError)"

text \<open>\<open>VRPEntry.canonicalize\<close>: the deduplication key.\<close>

definition canonicalize :: "pylib \<Rightarrow> VRPEntry \<Rightarrow> py_error + string" where
  "canonicalize L e =
     (case ip_network L (prefix e) of
        None \<Rightarrow> Inl ValueError
      | Some normalized_prefix \<Rightarrow>
          Inr (asn e @ ''|'' @ normalized_prefix @ ''|'' @ str_int (maxLength e) @ ''|'' @ ta e))"

subsection \<open>\<open>VRPLoader.canonicalize_vrps\<close>\<close>

text \<open>The dictionaries the loader hands to the engine: keys asn, prefix, maxLength, ta.\<close>

record vrp =
  d_asn :: string
  d_prefix :: string
  d_maxLength :: int
  d_ta :: string

text \<open>
  \<open>canonical_map\<close> is a Python dict: it keeps its keys in the order of their first
  insertion, so it is an association list that grows at the end.
\<close>

fun canonical_map :: "pylib \<Rightarrow> VRPEntry list \<Rightarrow> (string \<times> vrp) list \<Rightarrow> py_error + (string \<times> vrp) list" where
  "canonical_map L [] m = Inr m"
| "canonical_map L (v # vs) m =
     (case canonicalize L v of
        Inl e \<Rightarrow> Inl e
      | Inr canonical_key \<Rightarrow>
          if map_of m canonical_key = None then
            (case ip_network L (prefix v) of
               None \<Rightarrow> Inl ValueError
             | Some p \<Rightarrow>
                 canonical_map L vs
                   (m @ [(canonical_key,
                          \<lparr>d_asn = asn v, d_prefix = p, d_maxLength = maxLength v, d_ta = ta v\<rparr>)]))
          else canonical_map L vs m)"

text \<open>
  \<open>sorted\<close> is stable, and so is \<open>sort_key\<close>; strings compare by code point, tuples
  lexicographically.
\<close>

definition sort_tuple :: "vrp \<Rightarrow> string \<times> string \<times> int" where
  "sort_tuple x = (d_prefix x, d_asn x, d_maxLength x)"

definition canonicalize_vrps :: "pylib \<Rightarrow> VRPEntry list \<Rightarrow> py_error + vrp list" where
  "canonicalize_vrps L vrps =
     (case canonical_map L vrps [] of
        Inl e \<Rightarrow> Inl e
      | Inr m \<Rightarrow> Inr (sort_key sort_tuple (map snd m)))"

subsection \<open>\<open>VRPLoader.fetch_vrps\<close> and \<open>VRPLoader.fetch_and_process\<close>\<close>

record RoutinagorVRPResponse =
  metadata_generated :: int
  roas :: "VRPEntry list"

fun validate_roas :: "pylib \<Rightarrow> VRPEntry list \<Rightarrow> py_error + VRPEntry list" where
  "validate_roas L [] = Inr []"
| "validate_roas L (r # rs) =
     (case new_VRPEntry L r of
        Inl e \<Rightarrow> Inl e
      | Inr v \<Rightarrow> (case validate_roas L rs of Inl e \<Rightarrow> Inl e | Inr vs \<Rightarrow> Inr (v # vs)))"

definition new_RoutinagorVRPResponse :: "pylib \<Rightarrow> int \<Rightarrow> VRPEntry list \<Rightarrow> py_error + RoutinagorVRPResponse" where
  "new_RoutinagorVRPResponse L g rs =
     (case validate_timestamp g of
        Inl e \<Rightarrow> Inl e
      | Inr g' \<Rightarrow>
          (case validate_roas L rs of
             Inl e \<Rightarrow> Inl e
           | Inr vs \<Rightarrow> Inr \<lparr>metadata_generated = g', roas = vs\<rparr>))"

text \<open>
  What the HTTP request can answer. A JSON body that is not an object with an integer
  \<open>metadata.generated\<close> and a list \<open>roas\<close> of records with the four typed fields is
  \<open>OtherJson\<close>: building the response from it raises, and \<open>fetch_vrps\<close> returns \<open>None\<close>.
\<close>

datatype http_body = NotJson | OtherJson | RoutinatorJson int "VRPEntry list"

datatype http_result = Timeout | ConnectionError | OtherException | Response int http_body

text \<open>
  The gauges and the counter the two modules touch. Prometheus stores a gauge as a float;
  the model keeps the value that was set.
\<close>

record MetricsCollector =
  fetch_failures :: nat
  last_successful_fetch :: "string option"
  vrp_count_gauge :: nat
  serial_number :: int
  snapshot_age_set :: bool

definition fetch_failures_inc :: "MetricsCollector \<Rightarrow> MetricsCollector" where
  "fetch_failures_inc m = m\<lparr>fetch_failures := Suc (fetch_failures m)\<rparr>"

definition fetch_vrps :: "pylib \<Rightarrow> string \<Rightarrow> http_result \<Rightarrow> MetricsCollector
    \<Rightarrow> RoutinagorVRPResponse option \<times> MetricsCollector" where
  "fetch_vrps L now res m =
     (case res of
        Response status_code body \<Rightarrow>
          if status_code \<noteq> 200 then (None, fetch_failures_inc m)
          else (case body of
                  RoutinatorJson g rs \<Rightarrow>
                    (case new_RoutinagorVRPResponse L g rs of
                       Inl e \<Rightarrow> (None, fetch_failures_inc m)
                     | Inr vrp_response \<Rightarrow>
                         (Some vrp_response,
                          m\<lparr>vrp_count_gauge := length (roas vrp_response),
                            last_successful_fetch := Some now\<rparr>))
                | _ \<Rightarrow> (None, fetch_failures_inc m))
      | _ \<Rightarrow> (None, fetch_failures_inc m))"

section \<open>diff\_engine.py\<close>

subsection \<open>State in memory and on disk\<close>

record DiffEngine =
  current_snapshot :: "vrp list"
  previous_snapshot :: "vrp list"
  serial :: int
  current_hash :: string
  last_update :: "string option"

definition DiffEngine_init :: DiffEngine where
  "DiffEngine_init =
     \<lparr>current_snapshot = [], previous_snapshot = [], serial = 0, current_hash = [],
      last_update = None\<rparr>"

record snapshot_metadata =
  generated :: int
  fetched_at :: string

record diff_data =
  diff_serial :: int
  diff_timestamp :: string
  diff_metadata :: snapshot_metadata
  added_count :: nat
  removed_count :: nat
  added :: "vrp list"
  removed :: "vrp list"

text \<open>
  The metadata document as \<open>load_state\<close> reads it: \<open>metadata['serial']\<close> and
  \<open>metadata['current_hash']\<close> raise \<open>KeyError\<close> on an absent key (\<open>None\<close> here),
  \<open>metadata.get('last_update')\<close> is \<open>None\<close> for an absent key and for \<open>null\<close>.
\<close>

record state_metadata =
  md_serial :: "int option"
  md_current_hash :: "string option"
  md_last_update :: "string option"
  md_vrp_count :: "nat option"

text \<open>
  A file of the state directory: absent, present but not readable (any \<open>OSError\<close> other
  than \<open>FileNotFoundError\<close>), present but not JSON, or a document. Documents have the
  types \<open>_save_state\<close> and \<open>_save_diff\<close> write.
\<close>

datatype 'a disk_file = Missing | Unreadable | Corrupt | Content 'a

definition json_load :: "'a disk_file \<Rightarrow> py_error + 'a" where
  "json_load f =
     (case f of
        Missing \<Rightarrow> Inl FileNotFoundError
      | Unreadable \<Rightarrow> Inl OSError
      | Corrupt \<Rightarrow> Inl JSONDecodeError
      | Content x \<Rightarrow> Inr x)"

text \<open>
  The name \<open>diff_{serial:010d}.json\<close> is a different name for each integer, so the diff
  files are indexed by the serial.
\<close>

datatype path = metadata_path | current_snapshot_path | previous_snapshot_path | diff_path int

record fs =
  metadata_file :: "state_metadata disk_file"
  current_snapshot_file :: "vrp list disk_file"
  previous_snapshot_file :: "vrp list disk_file"
  diff_files :: "int \<Rightarrow> diff_data disk_file"
  writable :: "path \<Rightarrow> bool"

record world =
  engine :: DiffEngine
  disk :: fs
  metrics :: MetricsCollector

subsection \<open>\<open>_compute_hash\<close>\<close>

text \<open>
  \<open>json.dumps(vrps, sort_keys=True)\<close> on a list of the four-key dictionaries: the keys
  in sorted order, the separators \<open>", "\<close> and \<open>": "\<close>, strings escaped to ASCII. A
  character stands for the code point of its number; the text is ASCII after escaping, so
  encoding it to UTF-8 changes nothing.
\<close>

definition hex_char :: "nat \<Rightarrow> char" where
  "hex_char n = (if n < 10 then char_of (48 + n) else char_of (87 + n))"

definition json_escape :: "char \<Rightarrow> string" where
  "json_escape c =
     (if c = CHR 0x22 then [CHR 0x5C, CHR 0x22]
      else if c = CHR 0x5C then [CHR 0x5C, CHR 0x5C]
      else if c = CHR 0x0A then [CHR 0x5C, CHR ''n'']
      else if c = CHR 0x0D then [CHR 0x5C, CHR ''r'']
      else if c = CHR 0x09 then [CHR 0x5C, CHR ''t'']
      else if c = CHR 0x0C then [CHR 0x5C, CHR ''f'']
      else if c = CHR 0x08 then [CHR 0x5C, CHR ''b'']
      else if (of_char c :: nat) < 32 \<or> (of_char c :: nat) > 126 then
        [CHR 0x5C, CHR ''u'', CHR ''0'', CHR ''0'',
         hex_char (of_char c div 16), hex_char (of_char c mod 16)]
      else [c])"

definition json_string :: "string \<Rightarrow> string" where
  "json_string s = CHR 0x22 # concat (map json_escape s) @ [CHR 0x22]"

fun join :: "string \<Rightarrow> string list \<Rightarrow> string" where
  "join sep [] = []"
| "join sep [x] = x"
| "join sep (x # y # ys) = x @ sep @ join sep (y # ys)"

definition json_dumps_vrp :: "vrp \<Rightarrow> string" where
  "json_dumps_vrp v =
     ''{'' @ json_string ''asn'' @ '': '' @ json_string (d_asn v) @ '', ''
       @ json_string ''maxLength'' @ '': '' @ str_int (d_maxLength v) @ '', ''
       @ json_string ''prefix'' @ '': '' @ json_string (d_prefix v) @ '', ''
       @ json_string ''ta'' @ '': '' @ json_string (d_ta v) @ ''}''"

definition json_dumps :: "vrp list \<Rightarrow> string" where
  "json_dumps vrps = ''['' @ join '', '' (map json_dumps_vrp vrps) @ '']''"

text \<open>\<open>hexdigest\<close>: the 256 bits as 64 lower-case hexadecimal digits, highest first.\<close>

definition hexdigest :: "256 word \<Rightarrow> string" where
  "hexdigest d = map (\<lambda>i. hex_char (unat (drop_bit (4 * (63 - i)) d AND 15))) [0..<64]"

definition compute_hash :: "pylib \<Rightarrow> vrp list \<Rightarrow> string" where
  "compute_hash L vrps = hexdigest (sha256 L (json_dumps vrps))"

subsection \<open>\<open>_compute_diff\<close>\<close>

definition to_key :: "vrp \<Rightarrow> string" where
  "to_key v = d_asn v @ ''|'' @ d_prefix v @ ''|'' @ str_int (d_maxLength v)"

text \<open>
  The dict comprehension \<open>{to_key(v): v for v in vrps}\<close>: a key keeps the place of its
  first insertion and the value of its last.
\<close>

definition key_map :: "vrp list \<Rightarrow> (string \<times> vrp) list" where
  "key_map vrps = foldl (\<lambda>m v. AList.update (to_key v) v m) [] vrps"

text \<open>
  \<open>added\<close> and \<open>removed\<close> are built by iterating over a Python set of keys, whose order
  is not specified; the model lists them in the order of the dict. The theorems speak of
  the elements and of the length only.
\<close>

definition compute_diff :: "vrp list \<Rightarrow> vrp list \<Rightarrow> vrp list \<times> vrp list" where
  "compute_diff old_vrps new_vrps =
     (let old_set = key_map old_vrps;
          new_set = key_map new_vrps
      in (map snd (filter (\<lambda>kv. map_of old_set (fst kv) = None) new_set),
          map snd (filter (\<lambda>kv. map_of new_set (fst kv) = None) old_set)))"

subsection \<open>\<open>_save_diff\<close> and \<open>_save_state\<close>\<close>

text \<open>
  \<open>open(path, 'w')\<close> raises an \<open>OSError\<close> when the file cannot be written and leaves
  the disk as it was; otherwise the document replaces the file.
\<close>

definition save_diff :: "string \<Rightarrow> int \<Rightarrow> vrp list \<Rightarrow> vrp list \<Rightarrow> snapshot_metadata \<Rightarrow> fs \<Rightarrow> py_error + fs" where
  "save_diff now sr add rem md d =
     (if \<not> writable d (diff_path sr) then Inl OSError
      else Inr (d\<lparr>diff_files := (diff_files d)
                 (sr := Content \<lparr>diff_serial = sr, diff_timestamp = now, diff_metadata = md,
                                 added_count = length add, removed_count = length rem,
                                 added = add, removed = rem\<rparr>)\<rparr>))"

text \<open>
  \<open>_save_state\<close> writes three files one after the other; an error at one of them leaves
  the earlier ones written. The result is the error, if any, and the disk as it was left.
\<close>

definition save_state :: "DiffEngine \<Rightarrow> fs \<Rightarrow> py_error option \<times> fs" where
  "save_state e d =
     (if \<not> writable d current_snapshot_path then (Some OSError, d)
      else let d1 = d\<lparr>current_snapshot_file := Content (current_snapshot e)\<rparr> in
        if \<not> writable d1 previous_snapshot_path then (Some OSError, d1)
        else let d2 = d1\<lparr>previous_snapshot_file := Content (previous_snapshot e)\<rparr> in
          if \<not> writable d2 metadata_path then (Some OSError, d2)
          else (None,
                d2\<lparr>metadata_file := Content
                     \<lparr>md_serial = Some (serial e), md_current_hash = Some (current_hash e),
                      md_last_update = last_update e,
                      md_vrp_count = Some (length (current_snapshot e))\<rparr>\<rparr>))"

subsection \<open>\<open>load_state\<close>\<close>

definition start_fresh :: "world \<Rightarrow> unit outcome \<times> world" where
  "start_fresh w =
     (Returned (),
      w\<lparr>engine := (engine w)\<lparr>serial := 0, current_snapshot := [], previous_snapshot := [],
                              current_hash := [], last_update := None\<rparr>\<rparr>)"

text \<open>
  The body of the \<open>try\<close> assigns field after field, so an exception leaves the fields
  assigned before it. The outer handler catches \<open>FileNotFoundError\<close> from every \<open>open\<close> of
  the body that has no handler of its own: the metadata file and the current snapshot.
\<close>

definition load_state :: "world \<Rightarrow> unit outcome \<times> world" where
  "load_state w =
     (case json_load (metadata_file (disk w)) of
        Inl err \<Rightarrow> if err = FileNotFoundError then start_fresh w else (Raised err, w)
      | Inr metadata \<Rightarrow>
         (case md_serial metadata of
            None \<Rightarrow> (Raised KeyError, w)
          | Some sr \<Rightarrow>
             let w1 = w\<lparr>engine := (engine w)\<lparr>serial := sr\<rparr>\<rparr> in
             (case md_current_hash metadata of
                None \<Rightarrow> (Raised KeyError, w1)
              | Some h \<Rightarrow>
                 let w2 = w1\<lparr>engine := (engine w1)\<lparr>current_hash := h,
                                                    last_update := md_last_update metadata\<rparr>\<rparr> in
                 (case json_load (current_snapshot_file (disk w2)) of
                    Inl err \<Rightarrow> if err = FileNotFoundError then start_fresh w2 else (Raised err, w2)
                  | Inr cur \<Rightarrow>
                     let w3 = w2\<lparr>engine := (engine w2)\<lparr>current_snapshot := cur\<rparr>\<rparr> in
                     (case json_load (previous_snapshot_file (disk w3)) of
                        Inl err \<Rightarrow>
                          if err = FileNotFoundError then
                            (Returned (),
                             w3\<lparr>engine := (engine w3)\<lparr>previous_snapshot := []\<rparr>,
                                metrics := (metrics w3)\<lparr>serial_number := sr,
                                                        vrp_count_gauge := length cur\<rparr>\<rparr>)
                          else (Raised err, w3)
                      | Inr prev \<Rightarrow>
                          (Returned (),
                           w3\<lparr>engine := (engine w3)\<lparr>previous_snapshot := prev\<rparr>,
                              metrics := (metrics w3)\<lparr>serial_number := sr,
                                                      vrp_count_gauge := length cur\<rparr>\<rparr>))))))"

subsection \<open>\<open>process_snapshot\<close>\<close>

text \<open>
  \<open>now\<close> holds the two readings of the clock: \<open>last_update\<close> and the timestamp of the
  diff record. The fields of the engine are assigned before the files are written, so an
  error while writing leaves the new state in memory.
\<close>

definition process_snapshot :: "pylib \<Rightarrow> string \<times> string \<Rightarrow> vrp list \<Rightarrow> snapshot_metadata \<Rightarrow> world
    \<Rightarrow> bool outcome \<times> world" where
  "process_snapshot L now vrps md w =
     (let new_hash = compute_hash L vrps in
      if new_hash = current_hash (engine w) then (Returned False, w)
      else
        let (add, rem) = compute_diff (current_snapshot (engine w)) vrps;
            new_serial = serial (engine w) + 1;
            e = (engine w)\<lparr>previous_snapshot := current_snapshot (engine w),
                            current_snapshot := vrps,
                            serial := new_serial,
                            current_hash := new_hash,
                            last_update := Some (fst now)\<rparr>;
            w1 = w\<lparr>engine := e\<rparr>
        in (case save_diff (snd now) new_serial add rem md (disk w1) of
              Inl err \<Rightarrow> (Raised err, w1)
            | Inr d1 \<Rightarrow>
               (case save_state e d1 of
                  (Some err, d2) \<Rightarrow> (Raised err, w1\<lparr>disk := d2\<rparr>)
                | (None, d2) \<Rightarrow>
                    (Returned True,
                     w1\<lparr>disk := d2,
                        metrics := (metrics w1)\<lparr>serial_number := serial e,
                                                vrp_count_gauge := length (current_snapshot e),
                                                snapshot_age_set := True\<rparr>\<rparr>))))"

text \<open>A run of calls; the main loop goes on after a call that raised.\<close>

fun process_all :: "pylib \<Rightarrow> world \<Rightarrow> ((string \<times> string) \<times> vrp list \<times> snapshot_metadata) list
    \<Rightarrow> bool outcome list \<times> world" where
  "process_all L w [] = ([], w)"
| "process_all L w ((now, vrps, md) # cs) =
     (let (r, w') = process_snapshot L now vrps md w;
          (rs, w'') = process_all L w' cs
      in (r # rs, w''))"

subsection \<open>\<open>get_current_state\<close> and \<open>get_diff\<close>\<close>

record current_state =
  st_serial :: int
  st_vrp_count :: nat
  st_hash :: string
  st_last_update :: "string option"
  st_vrps :: "vrp list"

definition get_current_state :: "world \<Rightarrow> current_state" where
  "get_current_state w =
     \<lparr>st_serial = serial (engine w),
      st_vrp_count = length (current_snapshot (engine w)),
      st_hash = current_hash (engine w),
      st_last_update = last_update (engine w),
      st_vrps = current_snapshot (engine w)\<rparr>"

definition get_diff :: "world \<Rightarrow> int \<Rightarrow> int \<Rightarrow> diff_data option outcome" where
  "get_diff w from_serial to_serial =
     (if to_serial < from_serial then Returned None
      else if to_serial - from_serial \<noteq> 1 then Returned None
      else (case json_load (diff_files (disk w) to_serial) of
              Inr d \<Rightarrow> Returned (Some d)
            | Inl err \<Rightarrow> if err = FileNotFoundError then Returned None else Raised err))"

section \<open>vrp\_loader.py: the workflow\<close>

text \<open>
  The loader is given its diff engine at construction; \<open>P\<close> is that engine's
  \<open>process_snapshot\<close>. \<open>now\<close> holds the time of the fetch and the text of \<open>fetched_at\<close>.
\<close>

definition fetch_and_process :: "pylib \<Rightarrow> (vrp list \<Rightarrow> snapshot_metadata \<Rightarrow> world \<Rightarrow> bool outcome \<times> world)
    \<Rightarrow> string \<times> string \<Rightarrow> http_result \<Rightarrow> world \<Rightarrow> bool outcome \<times> world" where
  "fetch_and_process L P now res w =
     (let (vrp_response, m) = fetch_vrps L (fst now) res (metrics w);
          w1 = w\<lparr>metrics := m\<rparr>
      in case vrp_response of
           None \<Rightarrow> (Returned False, w1)
         | Some r \<Rightarrow>
            (case canonicalize_vrps L (roas r) of
               Inl err \<Rightarrow> (Raised err, w1)
             | Inr canonical_vrps \<Rightarrow>
                 P canonical_vrps \<lparr>generated = metadata_generated r, fetched_at = snd now\<rparr> w1))"

section \<open>The library on plain inputs\<close>

text \<open>
  To run the operations on concrete records the three library functions are needed as
  programs. \<open>ascii_int\<close> is \<open>int\<close> on ASCII text: surrounding whitespace, a sign, decimal
  digits with single underscores between them. \<open>ipv4_network\<close> is \<open>ip_network\<close> with
  \<open>strict=True\<close> on the texts \<open>a.b.c.d\<close> and \<open>a.b.c.d/n\<close> with a decimal \<open>n\<close>; on any
  other text (a netmask after the slash, IPv6) it answers \<open>None\<close>, so it is applied to
  texts of these two forms only. \<open>sha256_str\<close> is SHA-256 (FIPS 180-4).
\<close>

definition is_digit :: "char \<Rightarrow> bool" where
  "is_digit c = (CHR ''0'' \<le> c \<and> c \<le> CHR ''9'')"

definition dec_val :: "string \<Rightarrow> nat" where
  "dec_val s = foldl (\<lambda>a c. 10 * a + (of_char c - 48)) 0 s"

definition is_space :: "char \<Rightarrow> bool" where
  "is_space c = (c \<in> set [CHR 0x09, CHR 0x0A, CHR 0x0B, CHR 0x0C, CHR 0x0D, CHR 0x20])"

definition strip :: "string \<Rightarrow> string" where
  "strip s = rev (dropWhile is_space (rev (dropWhile is_space s)))"

fun no_double_underscore :: "string \<Rightarrow> bool" where
  "no_double_underscore (a # b # cs) =
     (\<not> (a = CHR ''_'' \<and> b = CHR ''_'') \<and> no_double_underscore (b # cs))"
| "no_double_underscore _ = True"

definition int_digits :: "string \<Rightarrow> nat option" where
  "int_digits s =
     (if s \<noteq> [] \<and> is_digit (hd s) \<and> is_digit (last s) \<and> no_double_underscore s
         \<and> list_all (\<lambda>c. is_digit c \<or> c = CHR ''_'') s
      then Some (dec_val (filter is_digit s)) else None)"

definition ascii_int :: "string \<Rightarrow> int option" where
  "ascii_int s =
     (case strip s of
        [] \<Rightarrow> None
      | c # r \<Rightarrow>
          if c = CHR ''-'' then map_option (\<lambda>n. - int n) (int_digits r)
          else if c = CHR ''+'' then map_option int (int_digits r)
          else map_option int (int_digits (c # r)))"

fun split_on :: "char \<Rightarrow> string \<Rightarrow> string list" where
  "split_on c [] = [[]]"
| "split_on c (x # xs) =
     (if x = c then [] # split_on c xs
      else (case split_on c xs of p # ps \<Rightarrow> (x # p) # ps | [] \<Rightarrow> [[x]]))"

definition parse_octet :: "string \<Rightarrow> nat option" where
  "parse_octet s =
     (if s \<noteq> [] \<and> list_all is_digit s \<and> length s \<le> 3 \<and> (if length s > 1 then hd s \<noteq> CHR ''0'' else True)
         \<and> dec_val s \<le> 255
      then Some (dec_val s) else None)"

definition ipv4_net :: "string \<Rightarrow> nat \<Rightarrow> string option" where
  "ipv4_net a n =
     (case map parse_octet (split_on CHR ''.'' a) of
        [Some o1, Some o2, Some o3, Some o4] \<Rightarrow>
          if (((o1 * 256 + o2) * 256 + o3) * 256 + o4) mod 2 ^ (32 - n) = 0
          then Some (str_nat o1 @ ''.'' @ str_nat o2 @ ''.'' @ str_nat o3 @ ''.'' @ str_nat o4
                     @ ''/'' @ str_nat n)
          else None
      | _ \<Rightarrow> None)"

definition ipv4_network :: "string \<Rightarrow> string option" where
  "ipv4_network s =
     (case split_on CHR ''/'' s of
        [a] \<Rightarrow> ipv4_net a 32
      | [a, p] \<Rightarrow>
          if p \<noteq> [] \<and> list_all is_digit p \<and> dec_val p \<le> 32 then ipv4_net a (dec_val p)
          else None
      | _ \<Rightarrow> None)"

text \<open>
  The constants of SHA-256 are the first 32 bits of the fractional parts of the cube roots
  (for \<open>K256\<close>) and of the square roots (for \<open>H0\<close>) of the first primes.
\<close>

definition root_floor :: "nat \<Rightarrow> nat \<Rightarrow> nat" where
  "root_floor k n =
     foldl (\<lambda>r i. if (r + 2 ^ i) ^ k \<le> n then r + 2 ^ i else r) 0 (rev [0..<64])"

definition is_prime :: "nat \<Rightarrow> bool" where
  "is_prime p = (1 < p \<and> list_all (\<lambda>d. 0 < p mod d) [2..<p])"

definition primes64 :: "nat list" where
  "primes64 = filter is_prime [2..<312]"

definition K256 :: "32 word list" where
  "K256 = map (\<lambda>p. of_nat (root_floor 3 (p * 2 ^ 96))) primes64"

definition H0 :: "32 word list" where
  "H0 = map (\<lambda>p. of_nat (root_floor 2 (p * 2 ^ 64))) (take 8 primes64)"

definition rotr :: "nat \<Rightarrow> 32 word \<Rightarrow> 32 word" where
  "rotr n x = drop_bit n x OR push_bit (32 - n) x"

definition Ch :: "32 word \<Rightarrow> 32 word \<Rightarrow> 32 word \<Rightarrow> 32 word" where
  "Ch x y z = (x AND y) XOR (NOT x AND z)"

definition Maj :: "32 word \<Rightarrow> 32 word \<Rightarrow> 32 word \<Rightarrow> 32 word" where
  "Maj x y z = (x AND y) XOR (x AND z) XOR (y AND z)"

definition bsig0 :: "32 word \<Rightarrow> 32 word" where
  "bsig0 x = rotr 2 x XOR rotr 13 x XOR rotr 22 x"

definition bsig1 :: "32 word \<Rightarrow> 32 word" where
  "bsig1 x = rotr 6 x XOR rotr 11 x XOR rotr 25 x"

definition ssig0 :: "32 word \<Rightarrow> 32 word" where
  "ssig0 x = rotr 7 x XOR rotr 18 x XOR drop_bit 3 x"

definition ssig1 :: "32 word \<Rightarrow> 32 word" where
  "ssig1 x = rotr 17 x XOR rotr 19 x XOR drop_bit 10 x"

definition be_bytes :: "nat \<Rightarrow> nat \<Rightarrow> nat list" where
  "be_bytes k n = map (\<lambda>i. (n div 256 ^ (k - 1 - i)) mod 256) [0..<k]"

definition sha_pad :: "nat list \<Rightarrow> nat list" where
  "sha_pad bs =
     bs @ [128] @ replicate ((119 - length bs mod 64) mod 64) 0 @ be_bytes 8 (8 * length bs)"

fun chunks :: "nat \<Rightarrow> nat \<Rightarrow> 'a list \<Rightarrow> 'a list list" where
  "chunks 0 n xs = []"
| "chunks (Suc f) n xs = (if xs = [] then [] else take n xs # chunks f n (drop n xs))"

definition word_of_bytes :: "nat list \<Rightarrow> 32 word" where
  "word_of_bytes bs = of_nat (foldl (\<lambda>a b. a * 256 + b) 0 bs)"

fun schedule :: "nat \<Rightarrow> 32 word list \<Rightarrow> 32 word list" where
  "schedule 0 ws = ws"
| "schedule (Suc n) ws =
     schedule n (ws @ [ssig1 (ws ! (length ws - 2)) + ws ! (length ws - 7)
                       + ssig0 (ws ! (length ws - 15)) + ws ! (length ws - 16)])"

fun sha_round :: "32 word list \<Rightarrow> 32 word \<times> 32 word \<Rightarrow> 32 word list" where
  "sha_round [a, b, c, d, e, f, g, h] (k, w) =
     (let t1 = h + bsig1 e + Ch e f g + k + w; t2 = bsig0 a + Maj a b c
      in [t1 + t2, a, b, c, d + t1, e, f, g])"
| "sha_round v _ = v"

definition compress :: "32 word list \<Rightarrow> nat list \<Rightarrow> 32 word list" where
  "compress hs block =
     (let ws = schedule 48 (map word_of_bytes (chunks 16 4 block))
      in map2 (+) hs (foldl sha_round hs (zip K256 ws)))"

definition sha256_bytes :: "nat list \<Rightarrow> 32 word list" where
  "sha256_bytes bs = (let p = sha_pad bs in foldl compress H0 (chunks (length p) 64 p))"

definition sha256_str :: "string \<Rightarrow> 256 word" where
  "sha256_str s = of_nat (foldl (\<lambda>a w. a * 2 ^ 32 + unat w) 0 (sha256_bytes (map of_char s)))"

definition ascii_lib :: pylib where
  "ascii_lib = \<lparr>ip_network = ipv4_network, py_int = ascii_int, sha256 = sha256_str\<rparr>"

section \<open>Concrete inputs\<close>

text \<open>An empty state directory in which every file can be written, and a new engine.\<close>

definition disk0 :: fs where
  "disk0 = \<lparr>metadata_file = Missing, current_snapshot_file = Missing,
             previous_snapshot_file = Missing, diff_files = (\<lambda>_. Missing),
             writable = (\<lambda>_. True)\<rparr>"

definition metrics0 :: MetricsCollector where
  "metrics0 = \<lparr>fetch_failures = 0, last_successful_fetch = None, vrp_count_gauge = 0,
                serial_number = 0, snapshot_age_set = False\<rparr>"

definition world0 :: world where
  "world0 = \<lparr>engine = DiffEngine_init, disk = disk0, metrics = metrics0\<rparr>"

definition md0 :: snapshot_metadata where
  "md0 = \<lparr>generated = 1700000000, fetched_at = ''2023-11-14T22:13:20''\<rparr>"

definition now0 :: "string \<times> string" where
  "now0 = (''2023-11-14T22:13:21'', ''2023-11-14T22:13:22'')"

text \<open>The state after the new engine has processed the empty snapshot.\<close>

definition world1 :: world where
  "world1 = snd (process_snapshot ascii_lib now0 [] md0 world0)"

definition r_ok :: VRPEntry where
  "r_ok = \<lparr>asn = ''AS1'', prefix = ''10.0.0.0/24'', maxLength = 24, ta = ''arin''\<rparr>"

definition r_hostbits :: VRPEntry where
  "r_hostbits = \<lparr>asn = ''AS2'', prefix = ''10.0.0.1/24'', maxLength = 24, ta = ''ripe''\<rparr>"

definition r_ripe :: VRPEntry where
  "r_ripe = \<lparr>asn = ''AS1'', prefix = ''10.0.0.0/24'', maxLength = 24, ta = ''ripe''\<rparr>"

definition r_as2 :: VRPEntry where
  "r_as2 = \<lparr>asn = ''AS2'', prefix = ''10.1.0.0/24'', maxLength = 24, ta = ''arin''\<rparr>"

text \<open>The dictionaries made from \<open>r_ok\<close>, \<open>r_ripe\<close> and \<open>r_as2\<close>.\<close>

definition d_arin :: vrp where
  "d_arin = \<lparr>d_asn = ''AS1'', d_prefix = ''10.0.0.0/24'', d_maxLength = 24, d_ta = ''arin''\<rparr>"

definition d_ripe :: vrp where
  "d_ripe = \<lparr>d_asn = ''AS1'', d_prefix = ''10.0.0.0/24'', d_maxLength = 24, d_ta = ''ripe''\<rparr>"

definition d_as2 :: vrp where
  "d_as2 = \<lparr>d_asn = ''AS2'', d_prefix = ''10.1.0.0/24'', d_maxLength = 24, d_ta = ''arin''\<rparr>"


text \<open>
  A state directory whose metadata file is there and whose snapshot files are not, and
  one whose metadata file is not JSON.
\<close>

definition metadata5 :: state_metadata where
  "metadata5 = \<lparr>md_serial = Some 5, md_current_hash = Some ''5feceb66'',
                 md_last_update = Some ''2023-11-14T22:13:21'', md_vrp_count = Some 1\<rparr>"

definition world_no_current :: world where
  "world_no_current =
     \<lparr>engine = DiffEngine_init,
      disk = disk0\<lparr>metadata_file := Content metadata5\<rparr>,
      metrics = metrics0\<rparr>"

definition world_corrupt :: world where
  "world_corrupt =
     \<lparr>engine = DiffEngine_init, disk = disk0\<lparr>metadata_file := Corrupt\<rparr>, metrics = metrics0\<rparr>"

text \<open>
  The key under which \<open>canonical_map\<close> stores a dictionary, read off the dictionary: the
  text \<open>VRPEntry.canonicalize\<close> gives for the entry the dictionary was made from. A map
  is \<open>keyed\<close> when its keys are distinct and each is the key of its dictionary.
\<close>

definition stored_key :: "vrp \<Rightarrow> string" where
  "stored_key d = d_asn d @ ''|'' @ d_prefix d @ ''|'' @ str_int (d_maxLength d) @ ''|'' @ d_ta d"

definition keyed :: "(string \<times> vrp) list \<Rightarrow> bool" where
  "keyed m = (distinct (map fst m) \<and> list_all (\<lambda>kd. stored_key (snd kd) = fst kd) m)"

text \<open>The dictionary \<open>canonicalize_vrps\<close> stores for an entry.\<close>

definition entry_dict :: "pylib \<Rightarrow> VRPEntry \<Rightarrow> vrp option" where
  "entry_dict L v =
     map_option (\<lambda>p. \<lparr>d_asn = asn v, d_prefix = p, d_maxLength = maxLength v, d_ta = ta v\<rparr>)
       (ip_network L (prefix v))"

section \<open>The library on the concrete records\<close>

lemma str_nat_examples:
  "str_nat 0 = ''0''" "str_nat 1 = ''1''" "str_nat (Suc 0) = ''1''" "str_nat 10 = ''10''"
  "str_nat 24 = ''24''"
  by code_simp+

lemma str_int_24: "str_int 24 = ''24''"
  by (simp add: str_int_def str_nat_examples)

lemma parse_octet_examples:
  "parse_octet ''10'' = Some 10" "parse_octet ''0'' = Some 0" "parse_octet ''1'' = Some 1"
  by (simp_all add: parse_octet_def is_digit_def dec_val_def)

lemma prefix_length_24: "dec_val ''24'' = 24" "is_digit CHR ''2''" "is_digit CHR ''4''"
  by (simp_all add: is_digit_def dec_val_def)

lemma ipv4_network_examples:
  "ipv4_network ''10.0.0.0/24'' = Some ''10.0.0.0/24''"
  "ipv4_network ''10.1.0.0/24'' = Some ''10.1.0.0/24''"
  "ipv4_network ''10.0.0.1/24'' = None"
  by (simp_all add: ipv4_network_def ipv4_net_def parse_octet_examples prefix_length_24
      str_nat_examples)

lemma ascii_int_examples: "ascii_int ''1'' = Some 1" "ascii_int ''2'' = Some 2"
  by (simp_all add: ascii_int_def strip_def is_space_def int_digits_def is_digit_def dec_val_def)

lemma new_VRPEntry_examples:
  "new_VRPEntry ascii_lib r_ok = Inr r_ok"
  "new_VRPEntry ascii_lib r_ripe = Inr r_ripe"
  "new_VRPEntry ascii_lib r_as2 = Inr r_as2"
  by (simp_all add: new_VRPEntry_def validate_asn_def validate_prefix_def validate_max_length_def
      startswith_def ascii_lib_def r_ok_def r_ripe_def r_as2_def ascii_int_examples
      ipv4_network_examples)

lemma canonicalize_examples:
  "canonicalize ascii_lib r_ok = Inr ''AS1|10.0.0.0/24|24|arin''"
  "canonicalize ascii_lib r_ripe = Inr ''AS1|10.0.0.0/24|24|ripe''"
  "canonicalize ascii_lib r_as2 = Inr ''AS2|10.1.0.0/24|24|arin''"
  by (simp_all add: canonicalize_def ascii_lib_def r_ok_def r_ripe_def r_as2_def
      ipv4_network_examples str_int_24)

lemma ip_network_examples:
  "ip_network ascii_lib (prefix r_ok) = Some ''10.0.0.0/24''"
  "ip_network ascii_lib (prefix r_ripe) = Some ''10.0.0.0/24''"
  "ip_network ascii_lib (prefix r_as2) = Some ''10.1.0.0/24''"
  by (simp_all add: ascii_lib_def r_ok_def r_ripe_def r_as2_def ipv4_network_examples)

lemma entry_fields:
  "asn r_ok = ''AS1''" "maxLength r_ok = 24" "ta r_ok = ''arin''"
  "asn r_ripe = ''AS1''" "maxLength r_ripe = 24" "ta r_ripe = ''ripe''"
  "asn r_as2 = ''AS2''" "maxLength r_as2 = 24" "ta r_as2 = ''arin''"
  by (simp_all add: r_ok_def r_ripe_def r_as2_def)

lemma sort_tuple_examples:
  "sort_tuple d_arin = (''10.0.0.0/24'', ''AS1'', 24)"
  "sort_tuple d_ripe = (''10.0.0.0/24'', ''AS1'', 24)"
  "sort_tuple d_as2 = (''10.1.0.0/24'', ''AS2'', 24)"
  by (simp_all add: sort_tuple_def d_arin_def d_ripe_def d_as2_def)

lemma canonicalize_vrps_arin_ripe:
  "canonicalize_vrps ascii_lib [r_ok, r_ripe] = Inr [d_arin, d_ripe]"
  by (simp add: canonicalize_vrps_def canonicalize_examples ip_network_examples entry_fields
      d_arin_def [symmetric] d_ripe_def [symmetric] sort_tuple_examples)

lemma canonicalize_vrps_ripe_arin:
  "canonicalize_vrps ascii_lib [r_ripe, r_ok] = Inr [d_ripe, d_arin]"
  by (simp add: canonicalize_vrps_def canonicalize_examples ip_network_examples entry_fields
      d_arin_def [symmetric] d_ripe_def [symmetric] sort_tuple_examples)

lemma canonicalize_vrps_duplicate:
  "canonicalize_vrps ascii_lib [r_as2, r_ok, r_as2] = Inr [d_arin, d_as2]"
  by (simp add: canonicalize_vrps_def canonicalize_examples ip_network_examples entry_fields
      d_arin_def [symmetric] d_as2_def [symmetric] sort_tuple_examples)

lemma to_key_examples:
  "to_key d_arin = ''AS1|10.0.0.0/24|24''" "to_key d_ripe = ''AS1|10.0.0.0/24|24''"
  by (simp_all add: to_key_def d_arin_def d_ripe_def str_int_24)

lemma compute_diff_shared_key: "compute_diff [] [d_arin, d_ripe] = ([d_ripe], [])"
  by (simp add: compute_diff_def key_map_def to_key_examples)

lemma json_dumps_examples:
  "json_dumps [d_arin, d_ripe] \<noteq> json_dumps [d_ripe, d_arin]"
  by (simp add: json_dumps_def json_dumps_vrp_def json_string_def json_escape_def
      d_arin_def d_ripe_def str_int_24)

lemma d_arin_neq_d_ripe: "d_arin \<noteq> d_ripe"
  by (simp add: d_arin_def d_ripe_def)

lemma hostbits_rejected: "ip_network ascii_lib (prefix r_hostbits) = None"
  by (simp add: ascii_lib_def r_hostbits_def ipv4_network_examples)

section \<open>The hash and one call of \<open>process_snapshot\<close>\<close>

lemma length_hexdigest: "length (hexdigest d) = 64"
  by (simp add: hexdigest_def)

lemma compute_hash_nonempty: "compute_hash L vrps \<noteq> []"
proof
  assume "compute_hash L vrps = []"
  then have "length (hexdigest (sha256 L (json_dumps vrps))) = 0"
    by (simp add: compute_hash_def)
  then show False by (simp add: length_hexdigest)
qed







lemma process_snapshot_unchanged:
  "compute_hash L vrps = current_hash (engine w) \<Longrightarrow> process_snapshot L now vrps md w = (Returned False, w)"
  by (simp add: process_snapshot_def)

lemma process_snapshot_engine:
  "compute_hash L vrps \<noteq> current_hash (engine w) \<Longrightarrow>
   engine (snd (process_snapshot L now vrps md w)) =
     (engine w)\<lparr>previous_snapshot := current_snapshot (engine w),
                 current_snapshot := vrps,
                 serial := serial (engine w) + 1,
                 current_hash := compute_hash L vrps,
                 last_update := Some (fst now)\<rparr>"
  by (simp add: process_snapshot_def Let_def split: prod.splits sum.splits option.splits)

lemma process_snapshot_not_False:
  "compute_hash L vrps \<noteq> current_hash (engine w) \<Longrightarrow>
   fst (process_snapshot L now vrps md w) \<noteq> Returned False"
  by (simp add: process_snapshot_def Let_def split: prod.splits sum.splits option.splits)

lemma process_snapshot_False_iff:
  "fst (process_snapshot L now vrps md w) = Returned False \<longleftrightarrow>
   compute_hash L vrps = current_hash (engine w)"
  using process_snapshot_not_False [of L vrps w now md] process_snapshot_unchanged [of L vrps w now md]
  by auto

lemma process_snapshot_True:
  assumes "compute_hash L vrps \<noteq> current_hash (engine w)"
    and "writable (disk w) (diff_path (serial (engine w) + 1))"
    and "writable (disk w) current_snapshot_path"
    and "writable (disk w) previous_snapshot_path"
    and "writable (disk w) metadata_path"
  shows "fst (process_snapshot L now vrps md w) = Returned True"
  using assms
  by (simp add: process_snapshot_def Let_def save_diff_def save_state_def split: prod.splits)

lemma process_snapshot_serial_step:
  "serial (engine (snd (process_snapshot L now vrps md w))) =
   serial (engine w) + (if fst (process_snapshot L now vrps md w) = Returned False then 0 else 1)"
proof (cases "compute_hash L vrps = current_hash (engine w)")
  case True
  then show ?thesis by (simp add: process_snapshot_unchanged)
next
  case False
  then show ?thesis
    by (simp add: process_snapshot_engine process_snapshot_not_False)
qed

lemma process_all_serial:
  "serial (engine (snd (process_all L w cs))) =
   serial (engine w) + int (length (filter (\<lambda>r. r \<noteq> Returned False) (fst (process_all L w cs))))"
proof (induction cs arbitrary: w)
  case Nil
  then show ?case by simp
next
  case (Cons c cs)
  obtain now vrps md where c: "c = (now, vrps, md)" by (cases c)
  obtain r w' where step: "process_snapshot L now vrps md w = (r, w')"
    by (cases "process_snapshot L now vrps md w")
  obtain rs w'' where rest: "process_all L w' cs = (rs, w'')"
    by (cases "process_all L w' cs")
  have "serial (engine w') = serial (engine w) + (if r = Returned False then 0 else 1)"
    using process_snapshot_serial_step [of L now vrps md w] step by simp
  moreover have "serial (engine w'') =
      serial (engine w') + int (length (filter (\<lambda>r. r \<noteq> Returned False) rs))"
    using Cons.IH [of w'] rest by simp
  ultimately show ?case
    using c step rest by simp
qed

lemma world0_accepts:
  "fst (process_snapshot ascii_lib now0 [] md0 world0) = Returned True"
  by (rule process_snapshot_True)
     (simp_all add: compute_hash_nonempty world0_def DiffEngine_init_def disk0_def)

section \<open>The serial\<close>

text \<open>
  Claim C2. A call of \<open>process_snapshot\<close> that returns true leaves the serial one higher
  than it found it; any call leaves it as it was or one higher; over a run of calls the
  serial grows by the number of calls that were not rejected, so it never decreases and
  never skips a value.
\<close>

theorem serial_advances_by_one:
  "(fst (process_snapshot L now vrps md w) = Returned True \<longrightarrow>
      serial (engine (snd (process_snapshot L now vrps md w))) = serial (engine w) + 1)
   \<and> (serial (engine (snd (process_snapshot L now vrps md w))) = serial (engine w)
      \<or> serial (engine (snd (process_snapshot L now vrps md w))) = serial (engine w) + 1)
   \<and> serial (engine (snd (process_all L w cs))) =
       serial (engine w)
       + int (length (filter (\<lambda>r. r \<noteq> Returned False) (fst (process_all L w cs))))"
  using process_snapshot_serial_step [of L now vrps md w] process_all_serial [of L w cs]
  by (simp split: if_splits)

theorem serial_advances_by_one_witness:
  "fst (process_snapshot ascii_lib now0 [] md0 world0) = Returned True
   \<and> serial (engine world0) = 0
   \<and> serial (engine (snd (process_snapshot ascii_lib now0 [] md0 world0))) = 1"
  using serial_advances_by_one [of ascii_lib now0 "[]" md0 world0 "[]"] world0_accepts
  by (simp add: world0_def DiffEngine_init_def)

section \<open>The unchanged snapshot\<close>

text \<open>
  A call whose candidate hashes to the current hash returns false and leaves the engine,
  the files and the metrics as they were; so does the call that follows an accepted call
  with the same candidate sequence.
\<close>

theorem unchanged_hash_is_noop:
  "(compute_hash L vrps = current_hash (engine w) \<longrightarrow>
      process_snapshot L now vrps md w = (Returned False, w))
   \<and> (fst (process_snapshot L now vrps md w) = Returned True \<longrightarrow>
      process_snapshot L now' vrps md' (snd (process_snapshot L now vrps md w))
        = (Returned False, snd (process_snapshot L now vrps md w)))"
proof (intro conjI impI)
  assume "compute_hash L vrps = current_hash (engine w)"
  then show "process_snapshot L now vrps md w = (Returned False, w)"
    by (rule process_snapshot_unchanged)
next
  assume acc: "fst (process_snapshot L now vrps md w) = Returned True"
  then have "compute_hash L vrps \<noteq> current_hash (engine w)"
    using process_snapshot_False_iff [of L now vrps md w] by auto
  then have "current_hash (engine (snd (process_snapshot L now vrps md w))) = compute_hash L vrps"
    by (simp add: process_snapshot_engine)
  then show "process_snapshot L now' vrps md' (snd (process_snapshot L now vrps md w))
        = (Returned False, snd (process_snapshot L now vrps md w))"
    by (simp add: process_snapshot_unchanged)
qed

theorem unchanged_hash_is_noop_witness:
  "compute_hash ascii_lib [] = current_hash (engine world1)
   \<and> fst (process_snapshot ascii_lib now0 [] md0 world0) = Returned True
   \<and> process_snapshot ascii_lib now0 [] md0 world1 = (Returned False, world1)"
proof -
  have neq: "compute_hash ascii_lib [] \<noteq> current_hash (engine world0)"
    by (simp add: compute_hash_nonempty world0_def DiffEngine_init_def)
  have h: "compute_hash ascii_lib [] = current_hash (engine world1)"
    unfolding world1_def by (simp add: process_snapshot_engine [OF neq])
  show ?thesis
    using h world0_accepts
      unchanged_hash_is_noop [of ascii_lib "[]" world1 now0 md0 now0 md0]
    by simp
qed

section \<open>The new engine\<close>

text \<open>
  Claim C10. On an engine whose hash is the empty string and whose serial is 0 no
  candidate sequence, the empty one included, hashes to the current hash: the hexadecimal
  digest has 64 characters. The call is never rejected, the serial becomes 1 and the
  candidate the current snapshot; the call returns true when the four files can be
  written.
\<close>

theorem fresh_engine_accepts_everything:
  assumes "current_hash (engine w) = []" and "serial (engine w) = 0"
  shows "compute_hash L vrps \<noteq> current_hash (engine w)
    \<and> fst (process_snapshot L now vrps md w) \<noteq> Returned False
    \<and> serial (engine (snd (process_snapshot L now vrps md w))) = 1
    \<and> current_snapshot (engine (snd (process_snapshot L now vrps md w))) = vrps
    \<and> (writable (disk w) (diff_path 1) \<and> writable (disk w) current_snapshot_path
        \<and> writable (disk w) previous_snapshot_path \<and> writable (disk w) metadata_path
        \<longrightarrow> fst (process_snapshot L now vrps md w) = Returned True)"
proof -
  have neq: "compute_hash L vrps \<noteq> current_hash (engine w)"
    using assms(1) by (simp add: compute_hash_nonempty)
  show ?thesis
    using neq assms(2) process_snapshot_not_False [OF neq, of now md]
      process_snapshot_True [OF neq, of now md]
    by (simp add: process_snapshot_engine)
qed

theorem fresh_engine_accepts_everything_witness:
  "current_hash (engine world0) = [] \<and> serial (engine world0) = 0
   \<and> writable (disk world0) (diff_path 1) \<and> writable (disk world0) current_snapshot_path
   \<and> writable (disk world0) previous_snapshot_path \<and> writable (disk world0) metadata_path
   \<and> fst (process_snapshot ascii_lib now0 [] md0 world0) = Returned True
   \<and> serial (engine (snd (process_snapshot ascii_lib now0 [] md0 world0))) = 1
   \<and> current_snapshot (engine (snd (process_snapshot ascii_lib now0 [] md0 world0))) = []"
  using fresh_engine_accepts_everything [of world0 ascii_lib "[]" now0 md0]
  by (simp add: world0_def DiffEngine_init_def disk0_def)

section \<open>Validation of a batch\<close>

lemma new_VRPEntry_invalid:
  assumes "\<not> startswith (asn r) ''AS'' \<or> py_int L (drop 2 (asn r)) = None
      \<or> (\<exists>n. py_int L (drop 2 (asn r)) = Some n \<and> (n < 0 \<or> 4294967295 < n))
      \<or> ip_network L (prefix r) = None \<or> maxLength r < 0 \<or> 128 < maxLength r"
  shows "new_VRPEntry L r = Inl ValueError"
  using assms
  by (auto simp: new_VRPEntry_def validate_asn_def validate_prefix_def validate_max_length_def
      split: sum.splits option.splits)

lemma validate_roas_invalid:
  "r \<in> set rs \<Longrightarrow> new_VRPEntry L r = Inl e \<Longrightarrow> \<exists>e'. validate_roas L rs = Inl e'"
  by (induction rs) (auto split: sum.splits)

lemma fetch_vrps_invalid:
  assumes "r \<in> set rs" and "new_VRPEntry L r = Inl e"
  shows "fetch_vrps L t (Response status (RoutinatorJson g rs)) m = (None, fetch_failures_inc m)"
proof -
  obtain e' where "validate_roas L rs = Inl e'"
    using validate_roas_invalid [OF assms] by blast
  then have "\<exists>e''. new_RoutinagorVRPResponse L g rs = Inl e''"
    by (simp add: new_RoutinagorVRPResponse_def split: sum.splits)
  then show ?thesis
    by (auto simp: fetch_vrps_def)
qed

text \<open>
  Claim C6. When one record of the batch fails a validator, \<open>fetch_and_process\<close> returns
  false whatever the engine's \<open>process_snapshot\<close> is, so that it is not called; the
  engine (snapshots, serial, hash) and the files are as before, and the failure counter
  is one higher.
\<close>

theorem invalid_record_rejects_batch:
  assumes "r \<in> set rs"
    and "\<not> startswith (asn r) ''AS'' \<or> py_int L (drop 2 (asn r)) = None
      \<or> (\<exists>n. py_int L (drop 2 (asn r)) = Some n \<and> (n < 0 \<or> 4294967295 < n))
      \<or> ip_network L (prefix r) = None \<or> maxLength r < 0 \<or> 128 < maxLength r"
  shows "fetch_and_process L P now (Response status (RoutinatorJson g rs)) w
           = (Returned False, w\<lparr>metrics := fetch_failures_inc (metrics w)\<rparr>)
    \<and> engine (snd (fetch_and_process L P now (Response status (RoutinatorJson g rs)) w)) = engine w
    \<and> disk (snd (fetch_and_process L P now (Response status (RoutinatorJson g rs)) w)) = disk w"
proof -
  have "new_VRPEntry L r = Inl ValueError"
    using assms(2) by (rule new_VRPEntry_invalid)
  then have "fetch_vrps L (fst now) (Response status (RoutinatorJson g rs)) (metrics w)
      = (None, fetch_failures_inc (metrics w))"
    using assms(1) by (rule fetch_vrps_invalid [rotated])
  then show ?thesis
    by (simp add: fetch_and_process_def)
qed

theorem invalid_record_rejects_batch_witness:
  "r_hostbits \<in> set [r_ok, r_hostbits]
   \<and> ip_network ascii_lib (prefix r_hostbits) = None
   \<and> fetch_and_process ascii_lib (process_snapshot ascii_lib now0) now0
        (Response 200 (RoutinatorJson 1700000000 [r_ok, r_hostbits])) world1
      = (Returned False, world1\<lparr>metrics := fetch_failures_inc (metrics world1)\<rparr>)"
  using invalid_record_rejects_batch [of r_hostbits "[r_ok, r_hostbits]" ascii_lib
      "process_snapshot ascii_lib now0" now0 200 1700000000 world1] hostbits_rejected
  by simp

section \<open>Looking up a diff\<close>

text \<open>
  Claim C8. \<open>get_diff\<close> returns a diff record only for a range of exactly one step whose
  diff file holds that record; for every other range, and when the diff file of the
  upper serial is absent, it returns \<open>None\<close> and does not raise.
\<close>

theorem get_diff_single_step_only:
  "(get_diff w from_serial to_serial = Returned (Some d) \<longrightarrow>
      to_serial - from_serial = 1 \<and> from_serial \<le> to_serial
      \<and> diff_files (disk w) to_serial = Content d)
   \<and> (\<not> (to_serial - from_serial = 1 \<and> from_serial \<le> to_serial
          \<and> diff_files (disk w) to_serial \<noteq> Missing) \<longrightarrow>
      get_diff w from_serial to_serial = Returned None)"
  by (cases "diff_files (disk w) to_serial") (auto simp: get_diff_def json_load_def)

lemma get_diff_raises_iff:
  "get_diff w from_serial to_serial = Raised err \<longleftrightarrow>
     to_serial - from_serial = 1
     \<and> ((diff_files (disk w) to_serial = Unreadable \<and> err = OSError)
        \<or> (diff_files (disk w) to_serial = Corrupt \<and> err = JSONDecodeError))"
  by (cases "diff_files (disk w) to_serial") (auto simp: get_diff_def json_load_def)

lemma world1_diff:
  "diff_files (disk world1) 1 =
     Content \<lparr>diff_serial = 1, diff_timestamp = snd now0, diff_metadata = md0,
              added_count = 0, removed_count = 0, added = [], removed = []\<rparr>"
  "diff_files (disk world1) 2 = Missing"
  unfolding world1_def
  by (simp_all add: process_snapshot_def Let_def compute_hash_nonempty world0_def
      DiffEngine_init_def disk0_def save_diff_def save_state_def compute_diff_def key_map_def)

theorem get_diff_single_step_only_witness:
  "get_diff world1 0 1 =
     Returned (Some \<lparr>diff_serial = 1, diff_timestamp = snd now0, diff_metadata = md0,
                     added_count = 0, removed_count = 0, added = [], removed = []\<rparr>)
   \<and> (1::int) - 0 = 1 \<and> (0::int) \<le> 1
   \<and> \<not> ((2::int) - 0 = 1 \<and> (0::int) \<le> 2 \<and> diff_files (disk world1) 2 \<noteq> Missing)
   \<and> get_diff world1 0 2 = Returned None
   \<and> get_diff world1 1 0 = Returned None
   \<and> get_diff world1 1 2 = Returned None"
  using get_diff_single_step_only [of world1 0 2] get_diff_single_step_only [of world1 1 0]
    get_diff_single_step_only [of world1 1 2] world1_diff
  by (simp add: get_diff_def json_load_def)

section \<open>Loading the state\<close>

lemma start_fresh_eq: "start_fresh w = (Returned (), w\<lparr>engine := DiffEngine_init\<rparr>)"
  by (cases w, cases "engine w") (simp add: start_fresh_def DiffEngine_init_def)

lemma load_state_metadata_missing:
  "metadata_file (disk w) = Missing \<Longrightarrow> load_state w = (Returned (), w\<lparr>engine := DiffEngine_init\<rparr>)"
  by (simp add: load_state_def json_load_def start_fresh_eq)

lemma load_state_current_missing:
  assumes "metadata_file (disk w) = Content md" and "md_serial md = Some sr"
    and "md_current_hash md = Some h" and "current_snapshot_file (disk w) = Missing"
  shows "load_state w = (Returned (), w\<lparr>engine := DiffEngine_init\<rparr>)"
  using assms by (simp add: load_state_def json_load_def start_fresh_eq Let_def)

lemma load_state_raises_iff:
  "fst (load_state w) = Raised err \<longleftrightarrow>
     (metadata_file (disk w) = Unreadable \<and> err = OSError)
   \<or> (metadata_file (disk w) = Corrupt \<and> err = JSONDecodeError)
   \<or> (\<exists>md. metadata_file (disk w) = Content md
          \<and> (md_serial md = None \<or> md_current_hash md = None) \<and> err = KeyError)
   \<or> (\<exists>md sr h. metadata_file (disk w) = Content md \<and> md_serial md = Some sr
          \<and> md_current_hash md = Some h
          \<and> ((current_snapshot_file (disk w) = Unreadable \<and> err = OSError)
             \<or> (current_snapshot_file (disk w) = Corrupt \<and> err = JSONDecodeError)
             \<or> (\<exists>cur. current_snapshot_file (disk w) = Content cur
                   \<and> ((previous_snapshot_file (disk w) = Unreadable \<and> err = OSError)
                      \<or> (previous_snapshot_file (disk w) = Corrupt \<and> err = JSONDecodeError)))))"
proof (cases "metadata_file (disk w)")
  case Missing
  then show ?thesis by (simp add: load_state_metadata_missing)
next
  case Unreadable
  then show ?thesis by (auto simp: load_state_def json_load_def)
next
  case Corrupt
  then show ?thesis by (auto simp: load_state_def json_load_def)
next
  case (Content md)
  show ?thesis
  proof (cases "md_serial md")
    case None
    with Content show ?thesis by (auto simp: load_state_def json_load_def)
  next
    case (Some sr)
    note sr = this
    show ?thesis
    proof (cases "md_current_hash md")
      case None
      with Content sr show ?thesis by (auto simp: load_state_def json_load_def Let_def)
    next
      case (Some h)
      note h = this
      show ?thesis
      proof (cases "current_snapshot_file (disk w)")
        case Missing
        then show ?thesis using Content sr h by (simp add: load_state_current_missing)
      next
        case Unreadable
        then show ?thesis using Content sr h by (auto simp: load_state_def json_load_def Let_def)
      next
        case Corrupt
        then show ?thesis using Content sr h by (auto simp: load_state_def json_load_def Let_def)
      next
        case (Content cur)
        note cur = this
        show ?thesis
          using \<open>metadata_file (disk w) = Content md\<close> sr h cur
          by (cases "previous_snapshot_file (disk w)")
             (auto simp: load_state_def json_load_def Let_def)
      qed
    qed
  qed
qed

lemma load_state_loaded:
  assumes "metadata_file (disk w) = Content md" and "md_serial md = Some sr"
    and "md_current_hash md = Some h" and "current_snapshot_file (disk w) = Content cur"
    and "previous_snapshot_file (disk w) = Missing \<or> previous_snapshot_file (disk w) = Content prev"
  shows "fst (load_state w) = Returned ()"
    and "engine (snd (load_state w)) =
           (engine w)\<lparr>serial := sr, current_hash := h, last_update := md_last_update md,
                       current_snapshot := cur,
                       previous_snapshot :=
                         (case previous_snapshot_file (disk w) of Content p \<Rightarrow> p | _ \<Rightarrow> [])\<rparr>"
  using assms by (auto simp: load_state_def json_load_def Let_def)

text \<open>
  Claim C7, as the code has it. \<open>load_state\<close> starts fresh, without an error, when the
  metadata file is missing and also when the metadata has been read and the current
  snapshot file is missing. It raises exactly when a file is there but cannot be read or
  is not JSON (the metadata, the current snapshot, or the previous snapshot once the
  other two are loaded), or when the metadata lacks the serial or the hash.
\<close>

theorem load_state_fresh_or_raises:
  "(metadata_file (disk w) = Missing
     \<or> (\<exists>md sr h. metadata_file (disk w) = Content md \<and> md_serial md = Some sr
           \<and> md_current_hash md = Some h \<and> current_snapshot_file (disk w) = Missing)
    \<longrightarrow> load_state w = (Returned (), w\<lparr>engine := DiffEngine_init\<rparr>))
   \<and> (fst (load_state w) = Raised err \<longleftrightarrow>
         (metadata_file (disk w) = Unreadable \<and> err = OSError)
       \<or> (metadata_file (disk w) = Corrupt \<and> err = JSONDecodeError)
       \<or> (\<exists>md. metadata_file (disk w) = Content md
              \<and> (md_serial md = None \<or> md_current_hash md = None) \<and> err = KeyError)
       \<or> (\<exists>md sr h. metadata_file (disk w) = Content md \<and> md_serial md = Some sr
              \<and> md_current_hash md = Some h
              \<and> ((current_snapshot_file (disk w) = Unreadable \<and> err = OSError)
                 \<or> (current_snapshot_file (disk w) = Corrupt \<and> err = JSONDecodeError)
                 \<or> (\<exists>cur. current_snapshot_file (disk w) = Content cur
                       \<and> ((previous_snapshot_file (disk w) = Unreadable \<and> err = OSError)
                          \<or> (previous_snapshot_file (disk w) = Corrupt
                              \<and> err = JSONDecodeError))))))"
  using load_state_metadata_missing [of w] load_state_current_missing [of w]
    load_state_raises_iff [of w err]
  by blast

theorem load_state_fresh_or_raises_witness:
  "metadata_file (disk world_no_current) = Content metadata5
   \<and> md_serial metadata5 = Some 5 \<and> md_current_hash metadata5 = Some ''5feceb66''
   \<and> current_snapshot_file (disk world_no_current) = Missing
   \<and> load_state world_no_current = (Returned (), world_no_current\<lparr>engine := DiffEngine_init\<rparr>)
   \<and> metadata_file (disk world0) = Missing
   \<and> load_state world0 = (Returned (), world0\<lparr>engine := DiffEngine_init\<rparr>)
   \<and> metadata_file (disk world_corrupt) = Corrupt
   \<and> fst (load_state world_corrupt) = Raised JSONDecodeError"
proof -
  have a: "metadata_file (disk world_no_current) = Content metadata5"
    and b: "md_serial metadata5 = Some 5" "md_current_hash metadata5 = Some ''5feceb66''"
    and c: "current_snapshot_file (disk world_no_current) = Missing"
    and d: "metadata_file (disk world0) = Missing"
    and e: "metadata_file (disk world_corrupt) = Corrupt"
    by (simp_all add: world_no_current_def world0_def world_corrupt_def disk0_def metadata5_def)
  have 1: "load_state world_no_current = (Returned (), world_no_current\<lparr>engine := DiffEngine_init\<rparr>)"
    using load_state_fresh_or_raises [of world_no_current] a b c by blast
  have 2: "load_state world0 = (Returned (), world0\<lparr>engine := DiffEngine_init\<rparr>)"
    using load_state_fresh_or_raises [of world0] d by blast
  have 3: "fst (load_state world_corrupt) = Raised JSONDecodeError"
    using load_state_fresh_or_raises [of world_corrupt JSONDecodeError] e by blast
  show ?thesis using a b c d e 1 2 3 by blast
qed

text \<open>
  Claim C7 as stated fails: with the metadata file present and the current snapshot file
  missing, \<open>load_state\<close> returns normally and the engine is the new one.
\<close>

theorem load_state_masks_missing_snapshot:
  "metadata_file (disk world_no_current) = Content metadata5
   \<and> current_snapshot_file (disk world_no_current) = Missing
   \<and> fst (load_state world_no_current) = Returned ()
   \<and> engine (snd (load_state world_no_current)) = DiffEngine_init"
  by (simp add: world_no_current_def disk0_def metadata5_def load_state_def json_load_def
      start_fresh_eq Let_def)

section \<open>Deduplication\<close>

lemma find_SomeD: "find P xs = Some x \<Longrightarrow> P x \<and> x \<in> set xs"
  by (induction xs) (auto split: if_splits)

lemma keyed_snoc:
  "keyed m \<Longrightarrow> map_of m k = None \<Longrightarrow> stored_key d = k \<Longrightarrow> keyed (m @ [(k, d)])"
  by (auto simp: keyed_def map_of_eq_None_iff)

lemma canonical_map_keyed:
  "canonical_map L vs m = Inr m' \<Longrightarrow> keyed m \<Longrightarrow> keyed m'"
proof (induction vs arbitrary: m)
  case Nil
  then show ?case by simp
next
  case (Cons v vs)
  from Cons.prems(1) obtain k where k: "canonicalize L v = Inr k"
    by (auto split: sum.splits)
  show ?case
  proof (cases "map_of m k = None")
    case True
    with Cons.prems(1) k obtain p where p: "ip_network L (prefix v) = Some p"
      by (auto split: option.splits)
    let ?d = "\<lparr>d_asn = asn v, d_prefix = p, d_maxLength = maxLength v, d_ta = ta v\<rparr>"
    have "stored_key ?d = k"
      using k p by (simp add: canonicalize_def stored_key_def)
    then have "keyed (m @ [(k, ?d)])"
      using Cons.prems(2) True by (simp add: keyed_snoc)
    moreover have "canonical_map L vs (m @ [(k, ?d)]) = Inr m'"
      using Cons.prems(1) k p True by simp
    ultimately show ?thesis by (rule Cons.IH [rotated])
  next
    case False
    then have "canonical_map L vs m = Inr m'"
      using Cons.prems(1) k by auto
    then show ?thesis using Cons.prems(2) by (rule Cons.IH)
  qed
qed

lemma canonical_map_kept:
  "canonical_map L vs m = Inr m' \<Longrightarrow> map_of m k = Some d \<Longrightarrow> map_of m' k = Some d"
proof (induction vs arbitrary: m)
  case Nil
  then show ?case by simp
next
  case (Cons v vs)
  from Cons.prems(1) obtain k' where k': "canonicalize L v = Inr k'"
    by (auto split: sum.splits)
  show ?case
  proof (cases "map_of m k' = None")
    case True
    with Cons.prems(1) k' obtain p where p: "ip_network L (prefix v) = Some p"
      by (auto split: option.splits)
    let ?d = "\<lparr>d_asn = asn v, d_prefix = p, d_maxLength = maxLength v, d_ta = ta v\<rparr>"
    have "canonical_map L vs (m @ [(k', ?d)]) = Inr m'"
      using Cons.prems(1) k' p True by simp
    moreover have "map_of (m @ [(k', ?d)]) k = Some d"
      using Cons.prems(2) by (simp add: map_add_Some_iff)
    ultimately show ?thesis by (rule Cons.IH)
  next
    case False
    then have "canonical_map L vs m = Inr m'"
      using Cons.prems(1) k' by auto
    then show ?thesis using Cons.prems(2) by (rule Cons.IH)
  qed
qed

lemma canonical_map_first_seen:
  "canonical_map L vs m = Inr m' \<Longrightarrow> map_of m k = None \<Longrightarrow>
   find (\<lambda>x. canonicalize L x = Inr k) vs = Some u \<Longrightarrow>
   \<exists>p. ip_network L (prefix u) = Some p
      \<and> map_of m' k = Some \<lparr>d_asn = asn u, d_prefix = p, d_maxLength = maxLength u, d_ta = ta u\<rparr>"
proof (induction vs arbitrary: m)
  case Nil
  then show ?case by simp
next
  case (Cons v vs)
  from Cons.prems(1) obtain k' where k': "canonicalize L v = Inr k'"
    by (auto split: sum.splits)
  show ?case
  proof (cases "map_of m k' = None")
    case True
    with Cons.prems(1) k' obtain p where p: "ip_network L (prefix v) = Some p"
      by (auto split: option.splits)
    let ?d = "\<lparr>d_asn = asn v, d_prefix = p, d_maxLength = maxLength v, d_ta = ta v\<rparr>"
    have rec: "canonical_map L vs (m @ [(k', ?d)]) = Inr m'"
      using Cons.prems(1) k' p True by simp
    show ?thesis
    proof (cases "k' = k")
      case True
      then have "u = v" using Cons.prems(3) k' by simp
      moreover have "map_of (m @ [(k', ?d)]) k = Some ?d"
        using \<open>k' = k\<close> Cons.prems(2) by (simp add: map_add_Some_iff)
      then have "map_of m' k = Some ?d"
        using rec by (rule canonical_map_kept [rotated])
      ultimately show ?thesis using p by simp
    next
      case False
      then have "find (\<lambda>x. canonicalize L x = Inr k) vs = Some u"
        using Cons.prems(3) k' by simp
      moreover have "map_of (m @ [(k', ?d)]) k = None"
        using False Cons.prems(2) by (simp add: map_add_def)
      ultimately show ?thesis using rec Cons.IH by blast
    qed
  next
    case False
    then have rec: "canonical_map L vs m = Inr m'"
      using Cons.prems(1) k' by auto
    have "k' \<noteq> k" using False Cons.prems(2) by auto
    then have "find (\<lambda>x. canonicalize L x = Inr k) vs = Some u"
      using Cons.prems(3) k' by simp
    then show ?thesis using rec Cons.prems(2) Cons.IH by blast
  qed
qed

lemma canonical_map_all_keys:
  "canonical_map L vs m = Inr m' \<Longrightarrow> v \<in> set vs \<Longrightarrow> \<exists>k. canonicalize L v = Inr k"
  by (induction vs arbitrary: m) (auto split: sum.splits option.splits if_splits)

lemma keyed_distinct_values:
  assumes "keyed m"
  shows "distinct (map stored_key (map snd m))"
proof -
  have "list_all (\<lambda>kd. stored_key (snd kd) = fst kd) m"
    using assms by (simp add: keyed_def)
  then have "map stored_key (map snd m) = map fst m"
    by (induction m) simp_all
  moreover have "distinct (map fst m)"
    using assms by (simp add: keyed_def)
  ultimately show ?thesis by (simp only:)
qed

lemma distinct_map_sort_key:
  "distinct (map f (sort_key g xs)) = distinct (map f xs)"
  by (simp add: distinct_map)

text \<open>
  Claim C9. In the output of \<open>canonicalize_vrps\<close> no two dictionaries have the same
  deduplication key (as text, and as the four fields); for every input entry the output
  holds the dictionary of the first entry of the input with the same key; and once the
  output is the current snapshot, \<open>get_current_state\<close> reports its length as \<open>vrp_count\<close>.
\<close>

theorem canonical_output_unique_first_seen:
  assumes "canonicalize_vrps L vrps = Inr out"
  shows "distinct (map stored_key out)
    \<and> distinct (map (\<lambda>d. (d_asn d, d_prefix d, d_maxLength d, d_ta d)) out)
    \<and> (\<forall>v \<in> set vrps. \<exists>k u p. canonicalize L v = Inr k
          \<and> find (\<lambda>x. canonicalize L x = Inr k) vrps = Some u
          \<and> ip_network L (prefix u) = Some p
          \<and> stored_key \<lparr>d_asn = asn u, d_prefix = p, d_maxLength = maxLength u, d_ta = ta u\<rparr> = k
          \<and> \<lparr>d_asn = asn u, d_prefix = p, d_maxLength = maxLength u, d_ta = ta u\<rparr> \<in> set out)
    \<and> (fst (process_snapshot L now out md w) \<noteq> Returned False \<longrightarrow>
         st_vrp_count (get_current_state (snd (process_snapshot L now out md w))) = length out)"
proof -
  from assms obtain m where m: "canonical_map L vrps [] = Inr m"
    and out: "out = sort_key sort_tuple (map snd m)"
    by (auto simp: canonicalize_vrps_def split: sum.splits)
  have "keyed []" by (simp add: keyed_def)
  with m have km: "keyed m" by (rule canonical_map_keyed)
  then have d1: "distinct (map stored_key out)"
    unfolding out distinct_map_sort_key by (rule keyed_distinct_values)
  have d2: "distinct (map (\<lambda>d. (d_asn d, d_prefix d, d_maxLength d, d_ta d)) out)"
  proof -
    have "inj_on stored_key (set out)" and "distinct out"
      using d1 by (simp_all add: distinct_map)
    moreover have "inj_on (\<lambda>d. (d_asn d, d_prefix d, d_maxLength d, d_ta d)) (set out)"
      by (rule inj_onI) simp
    ultimately show ?thesis by (simp add: distinct_map)
  qed
  have fs: "\<exists>k u p. canonicalize L v = Inr k
          \<and> find (\<lambda>x. canonicalize L x = Inr k) vrps = Some u
          \<and> ip_network L (prefix u) = Some p
          \<and> stored_key \<lparr>d_asn = asn u, d_prefix = p, d_maxLength = maxLength u, d_ta = ta u\<rparr> = k
          \<and> \<lparr>d_asn = asn u, d_prefix = p, d_maxLength = maxLength u, d_ta = ta u\<rparr> \<in> set out"
    if v: "v \<in> set vrps" for v
  proof -
    obtain k where k: "canonicalize L v = Inr k"
      using canonical_map_all_keys [OF m v] by blast
    then obtain u where u: "find (\<lambda>x. canonicalize L x = Inr k) vrps = Some u"
      using v by (cases "find (\<lambda>x. canonicalize L x = Inr k) vrps") (auto simp: find_None_iff)
    obtain p where p: "ip_network L (prefix u) = Some p"
      and look: "map_of m k = Some \<lparr>d_asn = asn u, d_prefix = p, d_maxLength = maxLength u, d_ta = ta u\<rparr>"
      using canonical_map_first_seen [OF m _ u] by auto
    from u have "canonicalize L u = Inr k"
      using find_SomeD by fastforce
    then have sk: "stored_key \<lparr>d_asn = asn u, d_prefix = p, d_maxLength = maxLength u, d_ta = ta u\<rparr> = k"
      using p by (simp add: canonicalize_def stored_key_def)
    from look have "\<lparr>d_asn = asn u, d_prefix = p, d_maxLength = maxLength u, d_ta = ta u\<rparr> \<in> snd ` set m"
      by (metis map_of_SomeD snd_conv image_eqI)
    then show ?thesis using k u p sk by (auto simp: out)
  qed
  have cnt: "st_vrp_count (get_current_state (snd (process_snapshot L now out md w))) = length out"
    if "fst (process_snapshot L now out md w) \<noteq> Returned False"
  proof -
    from that have "compute_hash L out \<noteq> current_hash (engine w)"
      by (auto simp: process_snapshot_def)
    then have "current_snapshot (engine (snd (process_snapshot L now out md w))) = out"
      by (simp add: process_snapshot_def Let_def split: prod.splits sum.splits option.splits)
    then show ?thesis by (simp add: get_current_state_def)
  qed
  show ?thesis using d1 d2 fs cnt by blast
qed

theorem canonical_output_unique_first_seen_witness:
  "canonicalize_vrps ascii_lib [r_as2, r_ok, r_as2] = Inr [d_arin, d_as2]
   \<and> distinct (map stored_key [d_arin, d_as2])
   \<and> distinct (map (\<lambda>d. (d_asn d, d_prefix d, d_maxLength d, d_ta d)) [d_arin, d_as2])
   \<and> r_as2 \<in> set [r_as2, r_ok, r_as2]
   \<and> (\<exists>k u p. canonicalize ascii_lib r_as2 = Inr k
          \<and> find (\<lambda>x. canonicalize ascii_lib x = Inr k) [r_as2, r_ok, r_as2] = Some u
          \<and> ip_network ascii_lib (prefix u) = Some p
          \<and> stored_key \<lparr>d_asn = asn u, d_prefix = p, d_maxLength = maxLength u, d_ta = ta u\<rparr> = k
          \<and> \<lparr>d_asn = asn u, d_prefix = p, d_maxLength = maxLength u, d_ta = ta u\<rparr>
              \<in> set [d_arin, d_as2])
   \<and> fst (process_snapshot ascii_lib now0 [d_arin, d_as2] md0 world0) \<noteq> Returned False
   \<and> st_vrp_count (get_current_state
         (snd (process_snapshot ascii_lib now0 [d_arin, d_as2] md0 world0))) = 2"
proof -
  have "compute_hash ascii_lib [d_arin, d_as2] \<noteq> current_hash (engine world0)"
    by (simp add: compute_hash_nonempty world0_def DiffEngine_init_def)
  then have acc: "fst (process_snapshot ascii_lib now0 [d_arin, d_as2] md0 world0) \<noteq> Returned False"
    by (rule process_snapshot_not_False)
  have mem: "r_as2 \<in> set [r_as2, r_ok, r_as2]" by simp
  note inst = canonical_output_unique_first_seen [OF canonicalize_vrps_duplicate, of now0 md0 world0]
  from inst have "distinct (map stored_key [d_arin, d_as2])"
    and "distinct (map (\<lambda>d. (d_asn d, d_prefix d, d_maxLength d, d_ta d)) [d_arin, d_as2])"
    by blast+
  moreover from inst mem have "\<exists>k u p. canonicalize ascii_lib r_as2 = Inr k
          \<and> find (\<lambda>x. canonicalize ascii_lib x = Inr k) [r_as2, r_ok, r_as2] = Some u
          \<and> ip_network ascii_lib (prefix u) = Some p
          \<and> stored_key \<lparr>d_asn = asn u, d_prefix = p, d_maxLength = maxLength u, d_ta = ta u\<rparr> = k
          \<and> \<lparr>d_asn = asn u, d_prefix = p, d_maxLength = maxLength u, d_ta = ta u\<rparr>
              \<in> set [d_arin, d_as2]"
    by blast
  moreover from inst acc have "st_vrp_count (get_current_state
         (snd (process_snapshot ascii_lib now0 [d_arin, d_as2] md0 world0))) = 2"
    by simp
  ultimately show ?thesis
    using canonicalize_vrps_duplicate acc mem by blast
qed

section \<open>The two keys and the order of the output\<close>

text \<open>
  Claim C1 at two valid records that differ in the trust anchor only: their deduplication
  keys differ, so \<open>canonicalize_vrps\<close> keeps both, and the keys \<open>_compute_diff\<close> gives
  their dictionaries are equal.
\<close>

theorem dedup_key_and_diff_key_disagree:
  "new_VRPEntry ascii_lib r_ok = Inr r_ok \<and> new_VRPEntry ascii_lib r_ripe = Inr r_ripe
   \<and> canonicalize ascii_lib r_ok = Inr ''AS1|10.0.0.0/24|24|arin''
   \<and> canonicalize ascii_lib r_ripe = Inr ''AS1|10.0.0.0/24|24|ripe''
   \<and> canonicalize ascii_lib r_ok \<noteq> canonicalize ascii_lib r_ripe
   \<and> canonicalize_vrps ascii_lib [r_ok, r_ripe] = Inr [d_arin, d_ripe]
   \<and> to_key d_arin = to_key d_ripe"
  by (simp add: new_VRPEntry_examples canonicalize_examples canonicalize_vrps_arin_ripe
      to_key_examples)

text \<open>
  Claim C4 at the same two records: the sort key leaves the trust anchor out, the sort is
  stable, and the two orders of the input give the two orders of the output, whose
  serialisations differ.
\<close>

theorem canonical_order_follows_input_order:
  "new_VRPEntry ascii_lib r_ok = Inr r_ok \<and> new_VRPEntry ascii_lib r_ripe = Inr r_ripe
   \<and> canonicalize_vrps ascii_lib [r_ok, r_ripe] = Inr [d_arin, d_ripe]
   \<and> canonicalize_vrps ascii_lib [r_ripe, r_ok] = Inr [d_ripe, d_arin]
   \<and> canonicalize_vrps ascii_lib [r_ok, r_ripe] \<noteq> canonicalize_vrps ascii_lib [r_ripe, r_ok]
   \<and> json_dumps [d_arin, d_ripe] \<noteq> json_dumps [d_ripe, d_arin]"
  by (simp add: new_VRPEntry_examples canonicalize_vrps_arin_ripe canonicalize_vrps_ripe_arin
      json_dumps_examples d_arin_neq_d_ripe)




text \<open>
  Where the order of the input does not matter: when the deduplication key determines
  the stored dictionary and no two stored dictionaries share the sort key, two inputs with
  the same entries have the same canonical sequence.
\<close>

lemma canonical_map_values:
  "canonical_map L vs m = Inr m' \<Longrightarrow>
   snd ` set m' \<subseteq> snd ` set m \<union> {d. \<exists>v \<in> set vs. entry_dict L v = Some d}"
proof (induction vs arbitrary: m)
  case Nil
  then show ?case by simp
next
  case (Cons v vs)
  from Cons.prems obtain k where k: "canonicalize L v = Inr k"
    by (auto split: sum.splits)
  show ?case
  proof (cases "map_of m k = None")
    case True
    with Cons.prems k obtain p where p: "ip_network L (prefix v) = Some p"
      by (auto split: option.splits)
    let ?d = "\<lparr>d_asn = asn v, d_prefix = p, d_maxLength = maxLength v, d_ta = ta v\<rparr>"
    have "canonical_map L vs (m @ [(k, ?d)]) = Inr m'"
      using Cons.prems k p True by simp
    then have "snd ` set m' \<subseteq> snd ` set (m @ [(k, ?d)]) \<union> {d. \<exists>v \<in> set vs. entry_dict L v = Some d}"
      by (rule Cons.IH)
    moreover have "entry_dict L v = Some ?d"
      using p by (simp add: entry_dict_def)
    ultimately show ?thesis by auto
  next
    case False
    then have "canonical_map L vs m = Inr m'"
      using Cons.prems k by auto
    then have "snd ` set m' \<subseteq> snd ` set m \<union> {d. \<exists>v \<in> set vs. entry_dict L v = Some d}"
      by (rule Cons.IH)
    then show ?thesis by auto
  qed
qed

lemma canonical_map_succeeds:
  "\<forall>v \<in> set vs. ip_network L (prefix v) \<noteq> None \<Longrightarrow> \<exists>m'. canonical_map L vs m = Inr m'"
  by (induction vs arbitrary: m) (auto simp: canonicalize_def split: option.splits)

lemma canonical_map_prefixes_valid:
  assumes "canonical_map L vs m = Inr m'" and "v \<in> set vs"
  shows "ip_network L (prefix v) \<noteq> None"
  using canonical_map_all_keys [OF assms] by (auto simp: canonicalize_def split: option.splits)

lemma canonical_map_value_set:
  assumes m: "canonical_map L vs [] = Inr m"
    and key: "\<And>u v. u \<in> set vs \<Longrightarrow> v \<in> set vs \<Longrightarrow> canonicalize L u = canonicalize L v
                \<Longrightarrow> entry_dict L u = entry_dict L v"
  shows "snd ` set m = {d. \<exists>v \<in> set vs. entry_dict L v = Some d}"
proof
  show "snd ` set m \<subseteq> {d. \<exists>v \<in> set vs. entry_dict L v = Some d}"
    using canonical_map_values [OF m] by simp
next
  show "{d. \<exists>v \<in> set vs. entry_dict L v = Some d} \<subseteq> snd ` set m"
  proof
    fix d
    assume "d \<in> {d. \<exists>v \<in> set vs. entry_dict L v = Some d}"
    then obtain v where v: "v \<in> set vs" "entry_dict L v = Some d" by auto
    obtain k where k: "canonicalize L v = Inr k"
      using canonical_map_all_keys [OF m v(1)] by blast
    then obtain u where u: "find (\<lambda>x. canonicalize L x = Inr k) vs = Some u"
      using v(1) by (cases "find (\<lambda>x. canonicalize L x = Inr k) vs") (auto simp: find_None_iff)
    then have u': "canonicalize L u = Inr k" "u \<in> set vs"
      using find_SomeD by fastforce+
    obtain p where p: "ip_network L (prefix u) = Some p"
      and look: "map_of m k = Some \<lparr>d_asn = asn u, d_prefix = p, d_maxLength = maxLength u, d_ta = ta u\<rparr>"
      using canonical_map_first_seen [OF m _ u] by auto
    have "entry_dict L u = entry_dict L v"
      using key [OF u'(2) v(1)] u'(1) k by simp
    moreover have "entry_dict L u = Some \<lparr>d_asn = asn u, d_prefix = p, d_maxLength = maxLength u, d_ta = ta u\<rparr>"
      using p by (simp add: entry_dict_def)
    ultimately have "d = \<lparr>d_asn = asn u, d_prefix = p, d_maxLength = maxLength u, d_ta = ta u\<rparr>"
      using v(2) by simp
    with look have "map_of m k = Some d" by simp
    then show "d \<in> snd ` set m"
      by (metis map_of_SomeD snd_conv image_eqI)
  qed
qed

lemma sorted_canonical_unique:
  assumes s1: "set out = D" and s2: "set out' = D" and inj: "inj_on sort_tuple D"
    and d1: "distinct out" and d2: "distinct out'"
    and o1: "sorted (map sort_tuple out)" and o2: "sorted (map sort_tuple out')"
  shows "out = out'"
proof -
  have "map sort_tuple out = map sort_tuple out'"
  proof (rule sorted_distinct_set_unique)
    show "sorted (map sort_tuple out)" by (rule o1)
    show "sorted (map sort_tuple out')" by (rule o2)
    show "distinct (map sort_tuple out)"
      using d1 inj s1 by (simp add: distinct_map)
    show "distinct (map sort_tuple out')"
      using d2 inj s2 by (simp add: distinct_map)
    show "set (map sort_tuple out) = set (map sort_tuple out')"
      using s1 s2 by simp
  qed
  moreover have "inj_on sort_tuple (set out \<union> set out')"
    using inj s1 s2 by simp
  ultimately show "out = out'"
    by (simp only: inj_on_map_eq_map)
qed

lemma canonical_values_distinct:
  assumes "canonical_map L vs [] = Inr m"
  shows "distinct (sort_key sort_tuple (map snd m))"
proof -
  have "keyed []" by (simp add: keyed_def)
  with assms have "keyed m" by (rule canonical_map_keyed)
  then have "distinct (map stored_key (map snd m))" by (rule keyed_distinct_values)
  then have "distinct (map snd m)" using distinct_map by blast
  then show ?thesis by simp
qed

lemma canonicalize_vrps_order_independent:
  assumes out: "canonicalize_vrps L xs = Inr out"
    and same: "set ys = set xs"
    and key: "\<And>u v. u \<in> set xs \<Longrightarrow> v \<in> set xs \<Longrightarrow> canonicalize L u = canonicalize L v
                \<Longrightarrow> entry_dict L u = entry_dict L v"
    and sep: "\<And>u v d e. u \<in> set xs \<Longrightarrow> v \<in> set xs \<Longrightarrow> entry_dict L u = Some d
                \<Longrightarrow> entry_dict L v = Some e \<Longrightarrow> sort_tuple d = sort_tuple e \<Longrightarrow> d = e"
  shows "canonicalize_vrps L ys = Inr out"
proof -
  from out obtain m where m: "canonical_map L xs [] = Inr m"
    and o: "out = sort_key sort_tuple (map snd m)"
    by (auto simp: canonicalize_vrps_def split: sum.splits)
  have "\<forall>v \<in> set ys. ip_network L (prefix v) \<noteq> None"
    unfolding same by (rule ballI) (rule canonical_map_prefixes_valid [OF m])
  then have "\<exists>m'. canonical_map L ys [] = Inr m'"
    by (rule canonical_map_succeeds)
  then obtain m' where m': "canonical_map L ys [] = Inr m'" ..
  define out' where "out' = sort_key sort_tuple (map snd m')"
  define D where "D = {d. \<exists>v \<in> set xs. entry_dict L v = Some d}"
  have key': "entry_dict L u = entry_dict L v"
    if "u \<in> set ys" "v \<in> set ys" "canonicalize L u = canonicalize L v" for u v
  proof -
    from that same have "u \<in> set xs" "v \<in> set xs" by simp_all
    then show ?thesis using that(3) by (rule key)
  qed
  have s1: "set out = D"
  proof -
    have "snd ` set m = D"
      unfolding D_def using m key by (rule canonical_map_value_set)
    then show ?thesis unfolding o by simp
  qed
  have s2: "set out' = D"
  proof -
    have "snd ` set m' = {d. \<exists>v \<in> set ys. entry_dict L v = Some d}"
      using m' key' by (rule canonical_map_value_set)
    then show ?thesis unfolding out'_def D_def same by simp
  qed
  have inj: "inj_on sort_tuple D"
  proof (rule inj_onI)
    fix d e
    assume dD: "d \<in> D" and eD: "e \<in> D" and eq: "sort_tuple d = sort_tuple e"
    from dD obtain u where u: "u \<in> set xs" "entry_dict L u = Some d"
      unfolding D_def by auto
    from eD obtain v where v: "v \<in> set xs" "entry_dict L v = Some e"
      unfolding D_def by auto
    show "d = e" using u(1) v(1) u(2) v(2) eq by (rule sep)
  qed
  have same_out: "out = out'"
  proof (rule sorted_canonical_unique [OF s1 s2 inj])
    show "distinct out" unfolding o using m by (rule canonical_values_distinct)
    show "distinct out'" unfolding out'_def using m' by (rule canonical_values_distinct)
    show "sorted (map sort_tuple out)" unfolding o by (rule sorted_sort_key)
    show "sorted (map sort_tuple out')" unfolding out'_def by (rule sorted_sort_key)
  qed
  have "canonicalize_vrps L ys = Inr out'"
    unfolding canonicalize_vrps_def out'_def using m' by simp
  then show ?thesis
    unfolding same_out .
qed

section \<open>The diff\<close>

lemma key_map_snoc: "key_map (vs @ [v]) = AList.update (to_key v) v (key_map vs)"
  by (simp add: key_map_def)

lemma map_of_key_map: "map_of (key_map vs) k = find (\<lambda>v. to_key v = k) (rev vs)"
proof (induction vs rule: rev_induct)
  case Nil
  then show ?case by (simp add: key_map_def)
next
  case (snoc v vs)
  then show ?case by (simp add: key_map_snoc update_conv')
qed

lemma distinct_key_map: "distinct (map fst (key_map vs))"
proof (induction vs rule: rev_induct)
  case Nil
  then show ?case by (simp add: key_map_def)
next
  case (snoc v vs)
  then show ?case by (simp add: key_map_snoc distinct_update)
qed

lemma key_map_absent: "map_of (key_map vs) k = None \<longleftrightarrow> k \<notin> to_key ` set vs"
  by (auto simp: map_of_key_map find_None_iff)

lemma set_key_map_values:
  "(k, v) \<in> set (key_map vs) \<longleftrightarrow> find (\<lambda>u. to_key u = k) (rev vs) = Some v"
  using distinct_key_map [of vs] map_of_key_map [of vs k]
  by (metis map_of_SomeD map_of_eq_Some_iff)

lemma set_diff_side:
  "set (map snd (filter (\<lambda>kv. map_of (key_map other) (fst kv) = None) (key_map vs))) =
   {v. find (\<lambda>u. to_key u = to_key v) (rev vs) = Some v \<and> to_key v \<notin> to_key ` set other}"
  (is "?lhs = ?rhs")
proof (rule set_eqI)
  fix v
  show "v \<in> ?lhs \<longleftrightarrow> v \<in> ?rhs"
  proof
    assume "v \<in> ?lhs"
    then obtain k where k: "(k, v) \<in> set (key_map vs)" "map_of (key_map other) k = None"
      by auto
    then have f: "find (\<lambda>u. to_key u = k) (rev vs) = Some v"
      by (simp add: set_key_map_values)
    then have "to_key v = k" using find_SomeD by fastforce
    with f k(2) show "v \<in> ?rhs" by (simp add: key_map_absent)
  next
    assume "v \<in> ?rhs"
    then have "(to_key v, v) \<in> set (key_map vs)" "map_of (key_map other) (to_key v) = None"
      by (simp_all add: set_key_map_values key_map_absent)
    then show "v \<in> ?lhs" by force
  qed
qed

lemma compute_diff_sets:
  "set (fst (compute_diff old new)) =
     {v. find (\<lambda>u. to_key u = to_key v) (rev new) = Some v \<and> to_key v \<notin> to_key ` set old}"
  "set (snd (compute_diff old new)) =
     {v. find (\<lambda>u. to_key u = to_key v) (rev old) = Some v \<and> to_key v \<notin> to_key ` set new}"
  by (simp_all add: compute_diff_def Let_def set_diff_side del: set_map set_filter)

lemma find_last_distinct:
  assumes "distinct (map to_key vs)"
  shows "find (\<lambda>u. to_key u = to_key v) (rev vs) = Some v \<longleftrightarrow> v \<in> set vs"
proof
  assume "find (\<lambda>u. to_key u = to_key v) (rev vs) = Some v"
  then show "v \<in> set vs" using find_SomeD by fastforce
next
  assume v: "v \<in> set vs"
  then obtain u where u: "find (\<lambda>u. to_key u = to_key v) (rev vs) = Some u"
    by (cases "find (\<lambda>u. to_key u = to_key v) (rev vs)") (auto simp: find_None_iff)
  then have "u \<in> set vs" "to_key u = to_key v"
    using find_SomeD by fastforce+
  then have "u = v"
    using assms v by (meson distinct_map inj_onD)
  with u show "find (\<lambda>u. to_key u = to_key v) (rev vs) = Some v" by simp
qed

lemma compute_diff_distinct_keys:
  assumes "distinct (map to_key old)" and "distinct (map to_key new)"
  shows "set (fst (compute_diff old new)) = {v \<in> set new. to_key v \<notin> to_key ` set old}"
    and "set (snd (compute_diff old new)) = {v \<in> set old. to_key v \<notin> to_key ` set new}"
  using assms by (simp_all add: compute_diff_sets find_last_distinct)

lemma compute_diff_two_and_two:
  assumes "distinct [to_key A, to_key B, to_key C]"
  shows "set (fst (compute_diff [A, B] [B, C])) = {C}"
    and "set (snd (compute_diff [A, B] [B, C])) = {A}"
  using assms by (auto simp: compute_diff_distinct_keys)

text \<open>
  Claim C5 at the canonical sequence of the two records above, against an empty old
  snapshot: both records have a key that no record of the old snapshot has, and
  \<open>added\<close> holds the second of them only.
\<close>

theorem diff_drops_record_with_shared_key:
  "canonicalize_vrps ascii_lib [r_ok, r_ripe] = Inr [d_arin, d_ripe]
   \<and> compute_diff [] [d_arin, d_ripe] = ([d_ripe], [])
   \<and> d_arin \<in> set [d_arin, d_ripe]
   \<and> to_key d_arin \<notin> to_key ` set []
   \<and> d_arin \<notin> set (fst (compute_diff [] [d_arin, d_ripe]))"
  by (simp add: canonicalize_vrps_arin_ripe compute_diff_shared_key d_arin_neq_d_ripe)

end
